theory Spec2Isabelle
  imports Main "HOL-Library.Sublist" "HOL-Library.AList"
begin

section \<open>The Rocket.Chat side of the gateway: \<^verbatim>\<open>src/rocketchat/rocketchat.js\<close>\<close>

text \<open>
  The class \<^verbatim>\<open>RocketChat\<close> keeps its session in instance fields and talks to two
  collaborators that are not part of the file: the DDP client (\<^verbatim>\<open>this.client\<close>) and the
  IRC connection (\<^verbatim>\<open>this.connection\<close>).  Both are modelled by what the class does to
  them: the list of operations invoked on the object, oldest first.  Answers of the
  transport and the results of library calls (\<^verbatim>\<open>EJSON.parse\<close>, \<^verbatim>\<open>mdbid()\<close>, the
  \<^verbatim>\<open>irc-colors\<close> wrappers, the clock) are parameters of the functions that use them.

  JavaScript strings are sequences of code units; every string operation used by the file
  (\<^verbatim>\<open>startsWith\<close>, \<^verbatim>\<open>replace(/^##?/, "")\<close>, \<^verbatim>\<open>split("\n")\<close>, \<^verbatim>\<open>includes\<close>, concatenation,
  \<^verbatim>\<open>===\<close>) is an operation on the sequence, so a string is a \<^typ>\<open>string\<close>.

  A method that can throw returns the state it leaves behind together with the exception,
  if any: mutations made before a \<^verbatim>\<open>throw\<close> stay.
\<close>

subsection \<open>Data\<close>

datatype exn = TypeError | Rejected string

text \<open>
  A room document as \<^verbatim>\<open>rooms/get\<close> delivers it; \<^verbatim>\<open>_id\<close> is \<open>room_id\<close>, and \<open>topic\<close> is
  \<open>None\<close> for a document without that field.
\<close>

record room =
  room_id :: string
  name :: string
  t :: string
  topic :: "string option"

text \<open>
  A message object: the payload of a \<^verbatim>\<open>stream-room-messages\<close> frame, or the object
  \<^verbatim>\<open>sendMessage\<close> builds.  \<^verbatim>\<open>_id\<close> is \<open>msg_id\<close>; \<open>u\<close> is \<^verbatim>\<open>u.username\<close>, \<open>None\<close> when
  the object has no \<^verbatim>\<open>u\<close> (as the objects of \<^verbatim>\<open>sendMessage\<close>).
\<close>

record message =
  msg_id :: string
  rid :: string
  msg :: string
  u :: "string option"

record user =
  user_id :: string
  user_username :: string

record user_info =
  info_id :: string
  info_token :: string

text \<open>
  Arguments handed to the transport.  \<open>Inherited key\<close> is the value an object inherits under
  that key, where the file passes it on unread.
\<close>

datatype arg = Str string | Bool bool | Date int | Msg message | Arr "arg list"
  | Inherited string

text \<open>Operations invoked on the DDP client object.\<close>

datatype ddp_op =
    On string
  | Connect
  | Login string string
  | Subscribe string "arg list"
  | Observe string
  | Call string "arg list"
  | Close

text \<open>Commands received by the IRC connection object.\<close>

datatype sink_cmd =
    JoinRoom string "string option"
  | SendPacket string "string list"

record connection =
  loginNick :: string
  received :: "sink_cmd list"

datatype observer = PresenceObserver

datatype log_entry = Trace string | Error exn | ErrorText string

text \<open>
  The instance fields.  \<open>client = None\<close> is the unset field; \<open>Some ops\<close> is a DDP object on
  which \<open>ops\<close> have been invoked.  \<open>rooms\<close>, \<open>observers\<close>, \<open>callDates\<close> and \<open>userStatuses\<close> are
  objects used as dictionaries: association lists of their own properties, with unique
  keys, in the order in which the keys were first assigned, which is the order \<^verbatim>\<open>_.find\<close>
  and \<^verbatim>\<open>_.forOwn\<close> visit them (no key is an array index, which an object would enumerate
  first).  \<open>rooms_proto\<close> is the prototype of the \<open>rooms\<close> object:
  \<open>None\<close> while it is \<^verbatim>\<open>Object.prototype\<close>, as the literal \<^verbatim>\<open>{}\<close> of the constructor has it,
  \<open>Some r\<close> once an assignment to the key \<^verbatim>\<open>__proto__\<close> has put the document \<open>r\<close> in its
  place.  \<open>logged\<close> is what went to \<^verbatim>\<open>log\<close>.
\<close>

record state =
  connection :: connection
  username :: string
  password :: string
  client :: "ddp_op list option"
  userInfo :: "user_info option"
  token :: "string option"
  me :: "user option"
  rooms :: "(string \<times> room) list"
  rooms_proto :: "room option"
  observers :: "(string \<times> observer list) list"
  callDates :: "(string \<times> int) list"
  userStatuses :: "(string \<times> bool) list"
  messageCache :: "message list"
  logged :: "log_entry list"

text \<open>The two \<^verbatim>\<open>irc-colors\<close> wrappers the file applies to its markers.\<close>

record irc_colors =
  lightgrey :: "string \<Rightarrow> string"
  red :: "string \<Rightarrow> string"

definition MESSAGE_CACHE_SIZE :: nat where
  "MESSAGE_CACHE_SIZE = 50"

definition HIGHLIGHT_TERMS :: "string list" where
  "HIGHLIGHT_TERMS = [''@here'', ''@channel'', ''@everyone'', ''@all'']"

text \<open>The constructor.\<close>

definition init :: "connection \<Rightarrow> string \<Rightarrow> string \<Rightarrow> state" where
  "init conn usr pass =
     \<lparr>connection = conn, username = usr, password = pass, client = None,
      userInfo = None, token = None, me = None, rooms = [], rooms_proto = None,
      observers = [], callDates = [], userStatuses = [], messageCache = [], logged = []\<rparr>"

subsection \<open>String operations of the host language\<close>

definition startsWith :: "string \<Rightarrow> string \<Rightarrow> bool" where
  "startsWith s p = prefix p s"

text \<open>\<^verbatim>\<open>s.replace(/^##?/, "")\<close>: the greedy match takes two leading hashes when there are two.\<close>

definition strip_hashes :: "string \<Rightarrow> string" where
  "strip_hashes s =
     (if startsWith s ''##'' then drop 2 s
      else if startsWith s ''#'' then drop 1 s
      else s)"

text \<open>\<^verbatim>\<open>line.includes(needle)\<close>: the needle occurs at some position of the line.\<close>

fun includes_str :: "string \<Rightarrow> string \<Rightarrow> bool" where
  "includes_str [] needle = (needle = [])"
| "includes_str (c # cs) needle = (prefix needle (c # cs) \<or> includes_str cs needle)"

text \<open>
  \<^verbatim>\<open>s.split("\n")\<close>, as a scan that keeps the line collected so far: the result is never
  empty, and the empty string gives one empty line.
\<close>

definition newline :: char where
  "newline = CHR 0x0A"

fun split_from :: "string \<Rightarrow> string \<Rightarrow> string list" where
  "split_from cur [] = [cur]"
| "split_from cur (c # cs) =
     (if c = newline then cur # split_from [] cs else split_from (cur @ [c]) cs)"

definition split_lines :: "string \<Rightarrow> string list" where
  "split_lines s = split_from [] s"

text \<open>\<^verbatim>\<open>lines.join("\n")\<close>, the inverse used to state the order of the lines.\<close>

fun join_lines :: "string list \<Rightarrow> string" where
  "join_lines [] = []"
| "join_lines [l] = l"
| "join_lines (l # ls) = l @ newline # join_lines ls"

subsection \<open>Identity mapper\<close>

definition getRoomPrefix :: "room \<Rightarrow> string" where
  "getRoomPrefix r = (if t r = ''c'' then ''#'' else ''##'')"

definition getIRCChannelName :: "room \<Rightarrow> string" where
  "getIRCChannelName r = getRoomPrefix r @ name r"

definition getRoomFromIRCChannel :: "state \<Rightarrow> string \<Rightarrow> room option" where
  "getRoomFromIRCChannel s channel =
     (let ty = (if startsWith channel ''##'' then ''p''
                else if \<not> startsWith channel ''#'' then ''d''
                else ''c'');
          nm = strip_hashes channel
      in find (\<lambda>r. name r = nm \<and> t r = ty) (map snd (rooms s)))"

subsection \<open>Reading the rooms object\<close>

text \<open>
  What \<^verbatim>\<open>this.rooms[key]\<close> evaluates to: \<^verbatim>\<open>undefined\<close>, a room document, or a value that
  is no room document.  Of such a value the file reads the fields \<^verbatim>\<open>t\<close>, which it does
  not have, and \<^verbatim>\<open>name\<close>, which is the argument of \<open>Foreign\<close>, \<open>None\<close> where it has none.
\<close>

datatype entry = Undefined | Document room | Foreign "string option"

text \<open>
  The properties every object inherits from \<^verbatim>\<open>Object.prototype\<close>: the function \<^verbatim>\<open>Object\<close>
  under \<^verbatim>\<open>constructor\<close>, and methods whose \<^verbatim>\<open>name\<close> is the key they are found under.
\<close>

definition Object_prototype_methods :: "string list" where
  "Object_prototype_methods =
     [''toString'', ''toLocaleString'', ''valueOf'', ''hasOwnProperty'', ''isPrototypeOf'',
      ''propertyIsEnumerable'', ''__defineGetter__'', ''__defineSetter__'',
      ''__lookupGetter__'', ''__lookupSetter__'']"

definition Object_prototype :: "string \<Rightarrow> entry" where
  "Object_prototype key =
     (if key = ''constructor'' then Foreign (Some ''Object'')
      else if key \<in> set Object_prototype_methods then Foreign (Some key)
      else Undefined)"

text \<open>Whether reading the key from an object without such a property of its own finds a value.\<close>

definition inherited :: "string \<Rightarrow> bool" where
  "inherited key \<longleftrightarrow> key = ''__proto__'' \<or> Object_prototype key \<noteq> Undefined"

text \<open>
  The lookup of line 225: an own property first, then the prototype chain.  The key
  \<^verbatim>\<open>__proto__\<close> reads the prototype itself.  A document installed as the prototype lends
  its fields, which are strings, and has \<^verbatim>\<open>Object.prototype\<close> behind it.
\<close>

definition rooms_at :: "state \<Rightarrow> string \<Rightarrow> entry" where
  "rooms_at s key =
     (case map_of (rooms s) key of
        Some r \<Rightarrow> Document r
      | None \<Rightarrow>
          (case rooms_proto s of
             None \<Rightarrow> (if key = ''__proto__'' then Foreign None else Object_prototype key)
           | Some p \<Rightarrow>
               (if key = ''__proto__'' then Document p
                else if key \<in> set [''_id'', ''name'', ''t''] \<or> (key = ''topic'' \<and> topic p \<noteq> None)
                  then Foreign None
                else Object_prototype key)))"

text \<open>
  The assignment of line 134, \<^verbatim>\<open>this.rooms[room._id] = room\<close>: under the key \<^verbatim>\<open>__proto__\<close>
  it replaces the prototype and adds no property.
\<close>

definition store_room :: "room \<Rightarrow> state \<Rightarrow> state" where
  "store_room r s =
     (if room_id r = ''__proto__'' then s\<lparr>rooms_proto := Some r\<rparr>
      else s\<lparr>rooms := AList.update (room_id r) r (rooms s)\<rparr>)"

text \<open>
  \<^verbatim>\<open>getIRCChannelName\<close> applied to what the lookup returned: on \<^verbatim>\<open>undefined\<close>,
  \<^verbatim>\<open>getRoomPrefix\<close> throws; a value without \<^verbatim>\<open>t\<close> gets two hashes, and a missing \<^verbatim>\<open>name\<close>
  is printed by the template as \<open>undefined\<close>.
\<close>

fun channel_name :: "entry \<Rightarrow> exn + string" where
  "channel_name Undefined = Inl TypeError"
| "channel_name (Document r) = Inr (getIRCChannelName r)"
| "channel_name (Foreign n) =
     Inr (''##'' @ (case n of None \<Rightarrow> ''undefined'' | Some nm \<Rightarrow> nm))"

subsection \<open>Message translator\<close>

text \<open>Lines 241 to 245: the flag starts false and each term found in the line sets it.\<close>

definition highlight_of :: "string \<Rightarrow> bool" where
  "highlight_of line =
     foldl (\<lambda>highlight needle. if includes_str line needle then True else highlight)
       False HIGHLIGHT_TERMS"

text \<open>Lines 247 to 250: the text of one \<^verbatim>\<open>privmsg\<close>.\<close>

definition line_text :: "irc_colors \<Rightarrow> string \<Rightarrow> bool \<Rightarrow> string \<Rightarrow> string" where
  "line_text irc nick edit line =
     (let prefix_part = (if edit then lightgrey irc ''[EDIT] '' else []);
          suffix_part = (if highlight_of line then red irc ('' (cc: '' @ nick @ '')'') else [])
      in prefix_part @ line @ suffix_part)"

text \<open>\<^verbatim>\<open>push\<close>, then one \<^verbatim>\<open>shift\<close> when the length exceeds the bound (lines 237-238, 261-262).\<close>

definition push_cache :: "message \<Rightarrow> message list \<Rightarrow> message list" where
  "push_cache m cache =
     (let pushed = cache @ [m]
      in if length pushed > MESSAGE_CACHE_SIZE then tl pushed else pushed)"

text \<open>
  \<^verbatim>\<open>onMessage\<close>.  When the lookup of the room gives \<^verbatim>\<open>undefined\<close>, line 226 throws; a
  missing \<^verbatim>\<open>u\<close> makes line 227 read \<^verbatim>\<open>username\<close> of \<^verbatim>\<open>undefined\<close>: both throw before
  anything is changed.
\<close>

definition onMessage :: "irc_colors \<Rightarrow> message \<Rightarrow> state \<Rightarrow> state \<times> exn option" where
  "onMessage irc m s =
     (case channel_name (rooms_at s (rid m)) of
        Inl e \<Rightarrow> (s, Some e)
      | Inr channel \<Rightarrow>
          (case u m of
             None \<Rightarrow> (s, Some TypeError)
           | Some nick \<Rightarrow>
               (let oldMsg = find (\<lambda>old. msg_id old = msg_id m) (messageCache s)
                in if (case oldMsg of Some old \<Rightarrow> msg old = msg m | None \<Rightarrow> False)
                   then (s, None)
                   else
                     (let edit = (oldMsg \<noteq> None);
                          conn = connection s;
                          packets = map
                            (\<lambda>line. SendPacket ''privmsg''
                               [channel, nick, line_text irc (loginNick conn) edit line])
                            (split_lines (msg m))
                      in (s\<lparr>messageCache := push_cache m (messageCache s),
                            connection := conn\<lparr>received := received conn @ packets\<rparr>\<rparr>,
                          None)))))"

text \<open>\<^verbatim>\<open>args.forEach(this.onMessage.bind(this))\<close>: the first throw ends the loop.\<close>

fun forEach_onMessage :: "irc_colors \<Rightarrow> message list \<Rightarrow> state \<Rightarrow> state \<times> exn option" where
  "forEach_onMessage irc [] s = (s, None)"
| "forEach_onMessage irc (m # ms) s =
     (case onMessage irc m s of
        (s', Some e) \<Rightarrow> (s', Some e)
      | (s', None) \<Rightarrow> forEach_onMessage irc ms s')"

text \<open>
  A decoded frame: \<open>frame_msg\<close> is its \<^verbatim>\<open>msg\<close> field, \<open>fields_args\<close> is \<^verbatim>\<open>fields.args\<close>,
  \<open>None\<close> when the frame has none.
\<close>

record frame =
  frame_msg :: string
  collection :: string
  fields_args :: "message list option"

text \<open>
  \<^verbatim>\<open>onRawMessage\<close>.  \<open>parse\<close> is \<^verbatim>\<open>EJSON.parse\<close>, \<open>None\<close> where it throws: the outer
  \<^verbatim>\<open>catch\<close> ignores that.  The inner \<^verbatim>\<open>catch\<close> logs whatever the distribution throws.
\<close>

definition onRawMessage ::
  "irc_colors \<Rightarrow> (string \<Rightarrow> frame option) \<Rightarrow> string \<Rightarrow> state \<Rightarrow> state" where
  "onRawMessage irc parse raw s =
     (let s0 = s\<lparr>logged := logged s @ [Trace raw]\<rparr>
      in case parse raw of
           None \<Rightarrow> s0
         | Some f \<Rightarrow>
             if frame_msg f = ''changed'' \<and> collection f = ''stream-room-messages'' then
               (case fields_args f of
                  None \<Rightarrow> s0\<lparr>logged := logged s0 @ [Error TypeError]\<rparr>
                | Some ms \<Rightarrow>
                    (case forEach_onMessage irc ms s0 of
                       (s1, Some e) \<Rightarrow> s1\<lparr>logged := logged s1 @ [Error e]\<rparr>
                     | (s1, None) \<Rightarrow> s1))
             else s0)"

text \<open>
  \<^verbatim>\<open>sendMessage\<close>; \<open>fresh\<close> is the result of \<^verbatim>\<open>mdbid()\<close>.  The cache is updated before
  \<^verbatim>\<open>this.call\<close> touches the client, which throws when the field is unset.
\<close>

definition sendMessage :: "string \<Rightarrow> room \<Rightarrow> string \<Rightarrow> state \<Rightarrow> state \<times> exn option" where
  "sendMessage fresh r body s =
     (let msgObj = \<lparr>msg_id = fresh, rid = room_id r, msg = body, u = None\<rparr>;
          s1 = s\<lparr>messageCache := push_cache msgObj (messageCache s)\<rparr>
      in case client s1 of
           None \<Rightarrow> (s1, Some TypeError)
         | Some ops \<Rightarrow> (s1\<lparr>client := Some (ops @ [Call ''sendMessage'' [Msg msgObj]])\<rparr>, None))"

text \<open>
  What can push to the cache between two events: an incoming message, or a message sent
  with a fresh id.  \<open>run\<close> performs such actions one after the other, each from the state
  the one before left behind, whether it returned or threw.
\<close>

datatype action = Incoming message | Outgoing string room string

fun action_id :: "action \<Rightarrow> string" where
  "action_id (Incoming m) = msg_id m"
| "action_id (Outgoing fresh r body) = fresh"

fun perform :: "irc_colors \<Rightarrow> action \<Rightarrow> state \<Rightarrow> state" where
  "perform irc (Incoming m) s = fst (onMessage irc m s)"
| "perform irc (Outgoing fresh r body) s = fst (sendMessage fresh r body s)"

definition run :: "irc_colors \<Rightarrow> action list \<Rightarrow> state \<Rightarrow> state" where
  "run irc acts s = foldl (\<lambda>st a. perform irc a st) s acts"

subsection \<open>Session lifecycle\<close>

text \<open>
  What the transport answers while \<^verbatim>\<open>connect\<close> runs: the outcome of \<^verbatim>\<open>client.connect\<close>
  and of the login, the \<^verbatim>\<open>users\<close> collection at \<^verbatim>\<open>updateMe\<close>, the result of
  \<^verbatim>\<open>rooms/get\<close>, and the clock read by \<^verbatim>\<open>callDated\<close>.
\<close>

record answers =
  connect_answer :: "exn option"
  login_answer :: "exn + user_info"
  users_collection :: "user list"
  rooms_get_answer :: "exn + room list"
  now :: int

text \<open>
  Invoking an operation on the client object held by the field; reading a method of an
  unset field throws.
\<close>

definition invoke :: "ddp_op \<Rightarrow> state \<Rightarrow> state \<times> exn option" where
  "invoke op s =
     (case client s of
        None \<Rightarrow> (s, Some TypeError)
      | Some ops \<Rightarrow> (s\<lparr>client := Some (ops @ [op])\<rparr>, None))"

definition updateMe :: "answers \<Rightarrow> state \<Rightarrow> state \<times> exn option" where
  "updateMe a s =
     (case client s of
        None \<Rightarrow> (s, Some TypeError)
      | Some ops \<Rightarrow>
          (s\<lparr>me := find (\<lambda>usr. user_username usr = username s) (users_collection a)\<rparr>,
           None))"

text \<open>
  \<^verbatim>\<open>trySubscribe\<close> up to its \<^verbatim>\<open>await\<close>: the subscription is issued; where issuing it
  throws, the \<^verbatim>\<open>catch\<close> logs at once.  \<^verbatim>\<open>subscribeDefault\<close> starts six of them and waits
  for none; a rejection by the transport is logged by the continuation of
  \<^verbatim>\<open>trySubscribe\<close>, later.
\<close>

definition trySubscribe :: "string \<Rightarrow> arg list \<Rightarrow> state \<Rightarrow> state" where
  "trySubscribe method params s =
     (case invoke (Subscribe method params) s of
        (s', None) \<Rightarrow> s'
      | (s', Some e) \<Rightarrow>
          s'\<lparr>logged := logged s' @ [ErrorText (''Failed to subscribe to '' @ method), Error e]\<rparr>)"

definition subscribeDefault :: "state \<Rightarrow> state \<times> exn option" where
  "subscribeDefault s =
     (case userInfo s of
        None \<Rightarrow> (s, Some TypeError)
      | Some info \<Rightarrow>
          (let uid = info_id info
           in (foldl (\<lambda>s' sub. trySubscribe (fst sub) (snd sub) s') s
                 [(''stream-notify-user'', [Str (uid @ ''/message''), Bool False]),
                  (''stream-notify-user'', [Str (uid @ ''/rooms-changed''), Bool False]),
                  (''stream-notify-user'', [Str (uid @ ''/subscriptions-changed''), Bool False]),
                  (''stream-notify-all'', [Str (uid @ ''/public-settings-changed''), Bool False]),
                  (''activeUsers'', []),
                  (''userData'', [])],
               None)))"

text \<open>
  \<^verbatim>\<open>observe\<close>: where the collection has no list yet but its name finds an inherited
  value, line 124 calls \<^verbatim>\<open>push\<close> on that value, which has none.
\<close>

definition observe :: "string \<Rightarrow> observer \<Rightarrow> state \<Rightarrow> state \<times> exn option" where
  "observe coll ob s =
     (case invoke (Observe coll) s of
        (s1, Some e) \<Rightarrow> (s1, Some e)
      | (s1, None) \<Rightarrow>
          (case map_of (observers s1) coll of
             Some obs \<Rightarrow>
               (s1\<lparr>observers := AList.update coll (obs @ [ob]) (observers s1)\<rparr>, None)
           | None \<Rightarrow>
               if inherited coll then (s1, Some TypeError)
               else (s1\<lparr>observers := AList.update coll [ob] (observers s1)\<rparr>, None)))"

definition observeDefault :: "state \<Rightarrow> state \<times> exn option" where
  "observeDefault s = observe ''users'' PresenceObserver s"

text \<open>An assignment of a boolean or a number to the key \<^verbatim>\<open>__proto__\<close> changes nothing.\<close>

definition setUserActivity :: "string \<Rightarrow> bool \<Rightarrow> state \<Rightarrow> state" where
  "setUserActivity uid online s =
     (if uid = ''__proto__'' then s
      else s\<lparr>userStatuses := AList.update uid online (userStatuses s)\<rparr>)"

text \<open>
  \<^verbatim>\<open>callDated\<close> with no further parameters, up to the call it issues: the date is noted
  before the client is touched.
\<close>

definition callDated :: "answers \<Rightarrow> string \<Rightarrow> state \<Rightarrow> state \<times> exn option" where
  "callDated a method s =
     (let date = (case map_of (callDates s) method of
                    Some d \<Rightarrow> Date d
                  | None \<Rightarrow> if inherited method then Inherited method else Date 0);
          s1 = (if method = ''__proto__'' then s
                else s\<lparr>callDates := AList.update method (now a) (callDates s)\<rparr>)
      in invoke (Call method [Arr [date]]) s1)"

definition updateRooms :: "answers \<Rightarrow> state \<Rightarrow> state \<times> exn option" where
  "updateRooms a s =
     (case callDated a ''rooms/get'' s of
        (s1, Some e) \<Rightarrow> (s1, Some e)
      | (s1, None) \<Rightarrow>
          (case rooms_get_answer a of
             Inl e \<Rightarrow> (s1, Some e)
           | Inr rs \<Rightarrow> (foldl (\<lambda>s' r. store_room r s') s1 rs, None)))"

text \<open>
  \<^verbatim>\<open>joinRoom\<close> up to its first \<^verbatim>\<open>await\<close>: the channel is opened on the IRC side and the
  membership call is issued.  Where issuing the call throws, the promise of \<^verbatim>\<open>joinRoom\<close>
  is rejected, and nobody waits for it: \<^verbatim>\<open>joinDefaultRooms\<close> starts \<^verbatim>\<open>joinRoom\<close> for every
  room that is not direct and goes on.
\<close>

definition joinRoom_begin :: "room \<Rightarrow> state \<Rightarrow> state" where
  "joinRoom_begin r s =
     (let conn = connection s;
          s1 = s\<lparr>connection :=
                  conn\<lparr>received := received conn @ [JoinRoom (getIRCChannelName r) (topic r)]\<rparr>\<rparr>
      in fst (invoke (Call ''getUsersOfRoom'' [Str (room_id r), Bool True]) s1))"

definition joinDefaultRooms :: "state \<Rightarrow> state" where
  "joinDefaultRooms s =
     foldl (\<lambda>s' kv. if t (snd kv) = ''d'' then s' else joinRoom_begin (snd kv) s') s (rooms s)"

text \<open>
  \<^verbatim>\<open>connect\<close>: the guard of line 39; then a new client object on which the listener is
  registered and \<^verbatim>\<open>connect\<close> and the login are invoked; then the steps of lines 60 to 64
  in their order.  A rejected step rejects \<^verbatim>\<open>connect\<close> with what was done so far.
\<close>

definition connect :: "answers \<Rightarrow> state \<Rightarrow> state \<times> exn option" where
  "connect a s =
     (if client s \<noteq> None then (s, None)
      else
        (let s1 = s\<lparr>client := Some [On ''message'', Connect]\<rparr>
         in case connect_answer a of
              Some e \<Rightarrow> (s1, Some e)
            | None \<Rightarrow>
                (let s2 = s1\<lparr>client :=
                            Some [On ''message'', Connect, Login (username s) (password s)]\<rparr>
                 in case login_answer a of
                      Inl e \<Rightarrow> (s2, Some e)
                    | Inr info \<Rightarrow>
                        (let s3 = s2\<lparr>userInfo := Some info, token := Some (info_token info)\<rparr>
                         in case updateMe a s3 of
                              (s4, Some e) \<Rightarrow> (s4, Some e)
                            | (s4, None) \<Rightarrow>
                         (case subscribeDefault s4 of
                              (s5, Some e) \<Rightarrow> (s5, Some e)
                            | (s5, None) \<Rightarrow>
                         (case observeDefault s5 of
                              (s6, Some e) \<Rightarrow> (s6, Some e)
                            | (s6, None) \<Rightarrow>
                         (case updateRooms a s6 of
                              (s7, Some e) \<Rightarrow> (s7, Some e)
                            | (s7, None) \<Rightarrow> (joinDefaultRooms s7, None))))))))"

definition disconnect :: "state \<Rightarrow> state" where
  "disconnect s = (if client s \<noteq> None then fst (invoke Close s) else s)"

subsection \<open>The entry a lookup finds\<close>

text \<open>
  \<open>heads m j cache\<close>: the first entry of the cache that carries the id of \<open>m\<close>, which is
  the one \<^verbatim>\<open>_.find\<close> returns, is \<open>m\<close> itself, and at most \<open>j\<close> entries were pushed after it.
\<close>

definition heads :: "message \<Rightarrow> nat \<Rightarrow> message list \<Rightarrow> bool" where
  "heads m j cache =
     (case dropWhile (\<lambda>e. msg_id e \<noteq> msg_id m) cache of
        [] \<Rightarrow> False
      | x # post \<Rightarrow> x = m \<and> length post \<le> j)"

subsection \<open>A sample session\<close>

text \<open>
  Concrete values for the instances below: the \<^verbatim>\<open>irc-colors\<close> wrappers (colour code, text,
  reset), a public, a private and a direct room, a public room whose name begins with a
  hash, and a cache filled to its bound with fifty messages of distinct ids.
\<close>

definition colours :: irc_colors where
  "colours = \<lparr>lightgrey = (\<lambda>x. CHR 0x03 # ''15'' @ x @ [CHR 0x03]),
              red = (\<lambda>x. CHR 0x03 # ''04'' @ x @ [CHR 0x03])\<rparr>"

definition general :: room where
  "general = \<lparr>room_id = ''GENERAL'', name = ''general'', t = ''c'', topic = Some ''all''\<rparr>"

definition staff :: room where
  "staff = \<lparr>room_id = ''r-staff'', name = ''staff'', t = ''p'', topic = None\<rparr>"

definition alice :: room where
  "alice = \<lparr>room_id = ''r-alice'', name = ''alice'', t = ''d'', topic = None\<rparr>"

definition hashed :: room where
  "hashed = \<lparr>room_id = ''r-hashed'', name = ''#x'', t = ''c'', topic = None\<rparr>"

definition session :: state where
  "session =
     (init \<lparr>loginNick = ''gw'', received = []\<rparr> ''bot'' ''secret'')
       \<lparr>rooms := [(''GENERAL'', general), (''r-staff'', staff), (''r-alice'', alice),
                  (''r-hashed'', hashed)]\<rparr>"

definition said :: "string \<Rightarrow> string \<Rightarrow> message" where
  "said i body = \<lparr>msg_id = i, rid = ''GENERAL'', msg = body, u = Some ''bob''\<rparr>"

definition fifty :: "message list" where
  "fifty = map (\<lambda>i. said i ''hi'')
       [''m01'', ''m02'', ''m03'', ''m04'', ''m05'', ''m06'', ''m07'', ''m08'',
        ''m09'', ''m10'', ''m11'', ''m12'', ''m13'', ''m14'', ''m15'', ''m16'',
        ''m17'', ''m18'', ''m19'', ''m20'', ''m21'', ''m22'', ''m23'', ''m24'',
        ''m25'', ''m26'', ''m27'', ''m28'', ''m29'', ''m30'', ''m31'', ''m32'',
        ''m33'', ''m34'', ''m35'', ''m36'', ''m37'', ''m38'', ''m39'', ''m40'',
        ''m41'', ''m42'', ''m43'', ''m44'', ''m45'', ''m46'', ''m47'', ''m48'',
        ''m49'', ''m50'']"



definition granted :: answers where
  "granted =
     \<lparr>connect_answer = None,
      login_answer = Inr \<lparr>info_id = ''u1'', info_token = ''tok''\<rparr>,
      users_collection = [\<lparr>user_id = ''u1'', user_username = ''bot''\<rparr>],
      rooms_get_answer = Inr [general, staff, alice],
      now = 1000\<rparr>"

section \<open>Properties\<close>

subsection \<open>Identity mapper\<close>

lemma find_name_type:
  "r \<in> set rs \<Longrightarrow>
   \<exists>r'. find (\<lambda>x. name x = name r \<and> t x = t r) rs = Some r' \<and> name r' = name r \<and> t r' = t r"
  by (induction rs) auto

text \<open>A public room gets one hash, every other room two.\<close>

lemma getIRCChannelName_cases:
  "getIRCChannelName r = (if t r = ''c'' then ''#'' @ name r else ''##'' @ name r)"
  by (simp add: getIRCChannelName_def getRoomPrefix_def)

text \<open>
  Claim C2 says that the channel name is one hash and the name for a public room, two
  hashes and the name for a private room, and the bare name of the counterpart for a
  direct room.  The first two hold; at a direct room the code gives the name behind two
  hashes: \<^verbatim>\<open>getRoomPrefix\<close> knows two cases only, while \<^verbatim>\<open>getRoomFromIRCChannel\<close> reads
  a name without prefix as a direct room.
\<close>

theorem direct_room_channel_name:
  "getIRCChannelName \<lparr>room_id = ''r-alice'', name = ''alice'', t = ''d'', topic = None\<rparr>
     = ''##alice''"
  by (simp add: getIRCChannelName_def getRoomPrefix_def)

text \<open>
  Claim C1 as stated fails in the sample session: the public room named \<open>#x\<close> and the
  direct room \<open>alice\<close> are registered, and the channel name of neither leads back to a room.
\<close>

theorem channel_roundtrip_counterexample:
  "map_of (rooms session) ''r-hashed'' = Some hashed \<and>
   getRoomFromIRCChannel session (getIRCChannelName hashed) = None \<and>
   map_of (rooms session) ''r-alice'' = Some alice \<and>
   getRoomFromIRCChannel session (getIRCChannelName alice) = None"
  by (simp add: session_def init_def hashed_def alice_def general_def staff_def
      getRoomFromIRCChannel_def getIRCChannelName_def getRoomPrefix_def startsWith_def
      strip_hashes_def)

text \<open>
  Claim C1, amended: for every room registered in the state store that is private, or
  public with a name that does not begin with a hash, mapping the room to a channel name
  with \<^verbatim>\<open>getIRCChannelName\<close> and looking that name up with \<^verbatim>\<open>getRoomFromIRCChannel\<close>
  returns a room with the same name and the same type.
\<close>

theorem channel_roundtrip:
  assumes "map_of (rooms s) k = Some r"
    and "t r = ''p'' \<or> (t r = ''c'' \<and> \<not> startsWith (name r) ''#'')"
  shows "\<exists>r'. getRoomFromIRCChannel s (getIRCChannelName r) = Some r' \<and>
              name r' = name r \<and> t r' = t r"
proof -
  from assms(1) have "(k, r) \<in> set (rooms s)"
    by (rule map_of_SomeD)
  then have mem: "r \<in> set (map snd (rooms s))"
    by force
  from assms(2) show ?thesis
  proof
    assume "t r = ''p''"
    then show ?thesis
      using find_name_type [OF mem]
      by (simp add: getRoomFromIRCChannel_def getIRCChannelName_def getRoomPrefix_def
          startsWith_def strip_hashes_def)
  next
    assume "t r = ''c'' \<and> \<not> startsWith (name r) ''#''"
    then show ?thesis
      using find_name_type [OF mem]
      by (cases "name r")
        (auto simp add: getRoomFromIRCChannel_def getIRCChannelName_def getRoomPrefix_def
          startsWith_def strip_hashes_def)
  qed
qed

text \<open>Claim C1, amended, at the public room \<open>general\<close> of the sample session.\<close>

theorem channel_roundtrip_witness:
  "map_of (rooms session) ''GENERAL'' = Some general \<and>
   (t general = ''p'' \<or> (t general = ''c'' \<and> \<not> startsWith (name general) ''#'')) \<and>
   (\<exists>r'. getRoomFromIRCChannel session (getIRCChannelName general) = Some r' \<and>
         name r' = name general \<and> t r' = t general)"
proof -
  have h1: "map_of (rooms session) ''GENERAL'' = Some general"
    by (simp add: session_def init_def)
  have h2: "t general = ''p'' \<or> (t general = ''c'' \<and> \<not> startsWith (name general) ''#'')"
    by (simp add: general_def startsWith_def)
  from h1 h2 channel_roundtrip [OF h1 h2] show ?thesis
    by blast
qed

subsection \<open>Lines and highlight terms\<close>

lemma split_from_nonempty: "split_from cur s \<noteq> []"
  by (induction s arbitrary: cur) auto

lemma length_split_from: "length (split_from cur s) = count_list s newline + 1"
  by (induction s arbitrary: cur) auto

lemma join_split_from: "join_lines (split_from cur s) = cur @ s"
proof (induction s arbitrary: cur)
  case Nil
  show ?case by simp
next
  case (Cons c cs)
  show ?case
  proof (cases "c = newline")
    case True
    obtain l ls where "split_from [] cs = l # ls"
      using split_from_nonempty [of "[]" cs] by (cases "split_from [] cs") auto
    with Cons [of "[]"] True show ?thesis by simp
  next
    case False
    with Cons show ?thesis by simp
  qed
qed

lemma split_from_no_newline:
  "newline \<notin> set cur \<Longrightarrow> \<forall>l \<in> set (split_from cur s). newline \<notin> set l"
proof (induction s arbitrary: cur)
  case Nil
  then show ?case by simp
next
  case (Cons c cs)
  show ?case
  proof (cases "c = newline")
    case True
    with Cons.IH [of "[]"] Cons.prems show ?thesis by simp
  next
    case False
    with Cons.IH [of "cur @ [c]"] Cons.prems show ?thesis by simp
  qed
qed

lemma includes_str_iff: "includes_str line needle \<longleftrightarrow> (\<exists>ps ss. line = ps @ needle @ ss)"
proof (induction line)
  case Nil
  show ?case by auto
next
  case (Cons c cs)
  have "(\<exists>ps ss. c # cs = ps @ needle @ ss) \<longleftrightarrow>
        prefix needle (c # cs) \<or> (\<exists>ps ss. cs = ps @ needle @ ss)"
    using sublist_Cons_right [of needle c cs] by (simp add: sublist_def)
  with Cons show ?case by simp
qed

lemma highlight_of_iff:
  "highlight_of line \<longleftrightarrow>
     (\<exists>needle \<in> {''@here'', ''@channel'', ''@everyone'', ''@all''}.
        \<exists>ps ss. line = ps @ needle @ ss)"
  by (simp add: highlight_of_def HIGHLIGHT_TERMS_def includes_str_iff)

subsection \<open>What one call of \<^verbatim>\<open>onMessage\<close> does\<close>

lemma rooms_at_own: "map_of (rooms s) key = Some r \<Longrightarrow> rooms_at s key = Document r"
  by (simp add: rooms_at_def)



lemma onMessage_unknown_room:
  "rooms_at s (rid m) = Undefined \<Longrightarrow> onMessage irc m s = (s, Some TypeError)"
  by (simp add: onMessage_def)

lemma onMessage_unchanged:
  assumes "map_of (rooms s) (rid m) = Some r" and "u m = Some nick"
    and "find (\<lambda>old. msg_id old = msg_id m) (messageCache s) = Some old"
    and "msg old = msg m"
  shows "onMessage irc m s = (s, None)"
  using assms by (simp add: onMessage_def rooms_at_own)

lemma onMessage_emits:
  assumes "map_of (rooms s) (rid m) = Some r" and "u m = Some nick"
    and "\<not> (\<exists>old. find (\<lambda>old. msg_id old = msg_id m) (messageCache s) = Some old \<and>
               msg old = msg m)"
  shows "onMessage irc m s =
    (s\<lparr>messageCache := push_cache m (messageCache s),
       connection := (connection s)\<lparr>received := received (connection s) @
         map (\<lambda>line. SendPacket ''privmsg'' [getIRCChannelName r, nick,
                line_text irc (loginNick (connection s))
                  (find (\<lambda>old. msg_id old = msg_id m) (messageCache s) \<noteq> None) line])
             (split_lines (msg m))\<rparr>\<rparr>, None)"
  using assms by (auto simp add: onMessage_def rooms_at_own Let_def split: option.splits)

lemma onMessage_rooms: "rooms (fst (onMessage irc m s)) = rooms s"
  by (simp add: onMessage_def Let_def split: option.splits sum.splits)

lemma onMessage_rooms_proto: "rooms_proto (fst (onMessage irc m s)) = rooms_proto s"
  by (simp add: onMessage_def Let_def split: option.splits sum.splits)

lemma onMessage_rooms_at: "rooms_at (fst (onMessage irc m s)) key = rooms_at s key"
  by (simp only: rooms_at_def onMessage_rooms onMessage_rooms_proto)

lemma onMessage_loginNick:
  "loginNick (connection (fst (onMessage irc m s))) = loginNick (connection s)"
  by (simp add: onMessage_def Let_def split: option.splits sum.splits)


lemma onMessage_cache_cases:
  "messageCache (fst (onMessage irc m s)) = messageCache s \<or>
   messageCache (fst (onMessage irc m s)) = push_cache m (messageCache s)"
  by (simp add: onMessage_def Let_def split: option.splits sum.splits)

lemma forEach_rooms: "rooms (fst (forEach_onMessage irc ms s)) = rooms s"
proof (induction ms arbitrary: s)
  case Nil
  show ?case by simp
next
  case (Cons m ms)
  obtain s' e where om: "onMessage irc m s = (s', e)"
    by (cases "onMessage irc m s")
  then have "rooms s' = rooms s"
    using onMessage_rooms [of irc m s] by simp
  with Cons [of s'] om show ?case
    by (cases e) auto
qed

lemma forEach_rooms_at: "rooms_at (fst (forEach_onMessage irc ms s)) key = rooms_at s key"
proof (induction ms arbitrary: s)
  case Nil
  show ?case by simp
next
  case (Cons m ms)
  obtain s' e where om: "onMessage irc m s = (s', e)"
    by (cases "onMessage irc m s")
  then have "rooms_at s' key = rooms_at s key"
    using onMessage_rooms_at [of irc m s key] by simp
  with Cons [of s'] om show ?case
    by (cases e) auto
qed

subsection \<open>The bound of the cache\<close>

lemma length_push_cache:
  "length cache \<le> MESSAGE_CACHE_SIZE \<Longrightarrow> length (push_cache m cache) \<le> MESSAGE_CACHE_SIZE"
  by (simp add: push_cache_def Let_def)

lemma onMessage_cache_bound:
  "length (messageCache s) \<le> MESSAGE_CACHE_SIZE \<Longrightarrow>
   length (messageCache (fst (onMessage irc m s))) \<le> MESSAGE_CACHE_SIZE"
  using onMessage_cache_cases [of irc m s] length_push_cache [of "messageCache s" m]
  by auto

lemma forEach_cache_bound:
  "length (messageCache s) \<le> MESSAGE_CACHE_SIZE \<Longrightarrow>
   length (messageCache (fst (forEach_onMessage irc ms s))) \<le> MESSAGE_CACHE_SIZE"
proof (induction ms arbitrary: s)
  case Nil
  then show ?case by simp
next
  case (Cons m ms)
  obtain s' e where om: "onMessage irc m s = (s', e)"
    by (cases "onMessage irc m s")
  with onMessage_cache_bound [OF Cons.prems, of irc m]
  have "length (messageCache s') \<le> MESSAGE_CACHE_SIZE"
    by simp
  with Cons.IH [of s'] om show ?case
    by (cases e) auto
qed

lemma onRawMessage_cache_bound:
  assumes "length (messageCache s) \<le> MESSAGE_CACHE_SIZE"
  shows "length (messageCache (onRawMessage irc parse raw s)) \<le> MESSAGE_CACHE_SIZE"
proof -
  have "length (messageCache (fst (forEach_onMessage irc ms
          (s\<lparr>logged := logged s @ [Trace raw]\<rparr>)))) \<le> MESSAGE_CACHE_SIZE" for ms
    using forEach_cache_bound [of "s\<lparr>logged := logged s @ [Trace raw]\<rparr>" irc ms] assms
    by simp
  with assms show ?thesis
    by (auto simp add: onRawMessage_def Let_def split: option.splits prod.splits)
      (metis fst_conv)+
qed

lemma sendMessage_cache_bound:
  "length (messageCache s) \<le> MESSAGE_CACHE_SIZE \<Longrightarrow>
   length (messageCache (fst (sendMessage fresh r body s))) \<le> MESSAGE_CACHE_SIZE"
  by (auto simp add: sendMessage_def Let_def length_push_cache split: option.splits)

text \<open>
  Claim C5: when the cache holds at most 50 entries, it holds at most 50 entries after
  \<^verbatim>\<open>onMessage\<close> has processed an event (whether it returned or threw), after
  \<^verbatim>\<open>onRawMessage\<close> has distributed a whole frame, and after \<^verbatim>\<open>sendMessage\<close>.
\<close>

theorem cache_never_exceeds_bound:
  "length (messageCache s) \<le> 50 \<Longrightarrow>
     length (messageCache (fst (onMessage irc m s))) \<le> 50 \<and>
     length (messageCache (onRawMessage irc parse raw s)) \<le> 50 \<and>
     length (messageCache (fst (sendMessage fresh r body s))) \<le> 50"
  using onMessage_cache_bound [of s irc m] onRawMessage_cache_bound [of s irc parse raw]
    sendMessage_cache_bound [of s fresh r body]
  by (simp add: MESSAGE_CACHE_SIZE_def)

text \<open>
  Claim C5 at a full cache: a new message arrives, alone and in a frame, and a message is
  sent, each time with fifty entries before and fifty after.
\<close>

theorem cache_never_exceeds_bound_witness:
  "length (messageCache (session\<lparr>messageCache := fifty\<rparr>)) \<le> 50 \<and>
   length (messageCache (fst (onMessage colours (said ''X'' ''new'')
      (session\<lparr>messageCache := fifty\<rparr>)))) \<le> 50 \<and>
   length (messageCache (onRawMessage colours
      (\<lambda>raw. Some \<lparr>frame_msg = ''changed'', collection = ''stream-room-messages'',
                    fields_args = Some [said ''X'' ''new'']\<rparr>)
      ''raw'' (session\<lparr>messageCache := fifty\<rparr>))) \<le> 50 \<and>
   length (messageCache (fst (sendMessage ''Y'' general ''out''
      (session\<lparr>messageCache := fifty\<rparr>)))) \<le> 50"
proof -
  have h: "length (messageCache (session\<lparr>messageCache := fifty\<rparr>)) \<le> 50"
    by (simp add: fifty_def)
  from h cache_never_exceeds_bound [OF h] show ?thesis
    by blast
qed

subsection \<open>Lines of a message\<close>

text \<open>
  Claim C8 as stated fails for a message that does not reach the output stage: a message
  of two lines that is cached with the same text is suppressed, and no line is emitted.
\<close>

theorem one_privmsg_per_line_counterexample:
  "count_list (msg (said ''X'' (''line one'' @ newline # ''line two''))) newline = 1 \<and>
   received (connection (session\<lparr>messageCache :=
       [said ''X'' (''line one'' @ newline # ''line two'')]\<rparr>)) = [] \<and>
   onMessage colours (said ''X'' (''line one'' @ newline # ''line two''))
       (session\<lparr>messageCache := [said ''X'' (''line one'' @ newline # ''line two'')]\<rparr>) =
     (session\<lparr>messageCache := [said ''X'' (''line one'' @ newline # ''line two'')]\<rparr>, None)"
  by (simp add: onMessage_def rooms_at_def session_def init_def said_def newline_def)

text \<open>
  Claim C8, amended: for every message whose room is registered, that names its author,
  and that is not suppressed as an unchanged re-delivery (the first cached entry with its
  id, if there is one, stores another text), \<^verbatim>\<open>onMessage\<close> emits one \<^verbatim>\<open>privmsg\<close> per line of
  the text: with k newline separators there are k + 1 lines, joining them with newlines
  gives the text back, so they come in the order of the text, and none contains a
  separator.  The text of each packet is the edit marker if the event is an edit, the
  same for all lines, then the line, then the highlight suffix if that line, by itself,
  contains one of the four terms.
\<close>

theorem one_privmsg_per_line:
  assumes "map_of (rooms s) (rid m) = Some r" and "u m = Some nick"
    and "\<not> (\<exists>old. find (\<lambda>old. msg_id old = msg_id m) (messageCache s) = Some old \<and>
               msg old = msg m)"
  shows "received (connection (fst (onMessage irc m s))) =
           received (connection s) @
           map (\<lambda>line. SendPacket ''privmsg'' [getIRCChannelName r, nick,
                  (if find (\<lambda>old. msg_id old = msg_id m) (messageCache s) \<noteq> None
                   then lightgrey irc ''[EDIT] '' else []) @
                  line @
                  (if \<exists>needle \<in> {''@here'', ''@channel'', ''@everyone'', ''@all''}.
                        \<exists>ps ss. line = ps @ needle @ ss
                   then red irc ('' (cc: '' @ loginNick (connection s) @ '')'') else [])])
               (split_lines (msg m)) \<and>
         length (split_lines (msg m)) = count_list (msg m) newline + 1 \<and>
         join_lines (split_lines (msg m)) = msg m \<and>
         (\<forall>line \<in> set (split_lines (msg m)). newline \<notin> set line)"
proof -
  have "newline \<notin> set []"
    by simp
  then have "\<forall>line \<in> set (split_lines (msg m)). newline \<notin> set line"
    unfolding split_lines_def by (rule split_from_no_newline)
  moreover have "length (split_lines (msg m)) = count_list (msg m) newline + 1"
    and "join_lines (split_lines (msg m)) = msg m"
    by (simp_all add: split_lines_def length_split_from join_split_from)
  moreover have "received (connection (fst (onMessage irc m s))) =
      received (connection s) @
      map (\<lambda>line. SendPacket ''privmsg'' [getIRCChannelName r, nick,
             (if find (\<lambda>old. msg_id old = msg_id m) (messageCache s) \<noteq> None
              then lightgrey irc ''[EDIT] '' else []) @
             line @
             (if \<exists>needle \<in> {''@here'', ''@channel'', ''@everyone'', ''@all''}.
                   \<exists>ps ss. line = ps @ needle @ ss
              then red irc ('' (cc: '' @ loginNick (connection s) @ '')'') else [])])
          (split_lines (msg m))"
    using onMessage_emits [OF assms, of irc]
    by (simp add: line_text_def Let_def highlight_of_iff)
  ultimately show ?thesis
    by blast
qed

text \<open>
  Claim C8, amended, in the sample session: the cached message \<open>X\<close> arrives with a new
  text of two lines; both lines carry the edit marker, and only the line with \<open>@all\<close>
  carries the suffix.
\<close>

theorem one_privmsg_per_line_witness:
  "map_of (rooms (session\<lparr>messageCache := [said ''X'' ''old'']\<rparr>))
     (rid (said ''X'' (''see @all'' @ newline # ''plain''))) = Some general \<and>
   u (said ''X'' (''see @all'' @ newline # ''plain'')) = Some ''bob'' \<and>
   \<not> (\<exists>old. find (\<lambda>old. msg_id old = msg_id (said ''X'' (''see @all'' @ newline # ''plain'')))
          (messageCache (session\<lparr>messageCache := [said ''X'' ''old'']\<rparr>)) = Some old \<and>
        msg old = msg (said ''X'' (''see @all'' @ newline # ''plain''))) \<and>
   count_list (msg (said ''X'' (''see @all'' @ newline # ''plain''))) newline = 1 \<and>
   received (connection (fst (onMessage colours (said ''X'' (''see @all'' @ newline # ''plain''))
      (session\<lparr>messageCache := [said ''X'' ''old'']\<rparr>)))) =
     [SendPacket ''privmsg'' [''#general'', ''bob'',
        CHR 0x03 # ''15[EDIT] '' @ CHR 0x03 # ''see @all'' @ CHR 0x03 # ''04 (cc: gw)'' @
        [CHR 0x03]],
      SendPacket ''privmsg'' [''#general'', ''bob'',
        CHR 0x03 # ''15[EDIT] '' @ CHR 0x03 # ''plain'']]"
proof -
  have h1: "map_of (rooms (session\<lparr>messageCache := [said ''X'' ''old'']\<rparr>))
      (rid (said ''X'' (''see @all'' @ newline # ''plain''))) = Some general"
    by (simp add: session_def init_def said_def)
  have h2: "u (said ''X'' (''see @all'' @ newline # ''plain'')) = Some ''bob''"
    by (simp add: said_def)
  have h3: "\<not> (\<exists>old. find (\<lambda>old. msg_id old =
        msg_id (said ''X'' (''see @all'' @ newline # ''plain'')))
        (messageCache (session\<lparr>messageCache := [said ''X'' ''old'']\<rparr>)) = Some old \<and>
        msg old = msg (said ''X'' (''see @all'' @ newline # ''plain'')))"
    by (simp add: said_def newline_def)
  have "split_lines (msg (said ''X'' (''see @all'' @ newline # ''plain''))) =
      [''see @all'', ''plain'']"
    and "count_list (msg (said ''X'' (''see @all'' @ newline # ''plain''))) newline = 1"
    by (simp_all add: said_def split_lines_def newline_def)
  moreover have "(\<exists>needle \<in> {''@here'', ''@channel'', ''@everyone'', ''@all''}.
        \<exists>ps ss. ''see @all'' = ps @ needle @ ss) = True"
    and "(\<exists>needle \<in> {''@here'', ''@channel'', ''@everyone'', ''@all''}.
        \<exists>ps ss. ''plain'' = ps @ needle @ ss) = False"
    using highlight_of_iff [of "''see @all''", symmetric]
      highlight_of_iff [of "''plain''", symmetric]
    by (simp_all add: highlight_of_def HIGHLIGHT_TERMS_def)
  moreover have "getIRCChannelName general = ''#general''"
    by (simp add: getIRCChannelName_def getRoomPrefix_def general_def)
  moreover have "received (connection (session\<lparr>messageCache := [said ''X'' ''old'']\<rparr>)) = []"
    and "loginNick (connection (session\<lparr>messageCache := [said ''X'' ''old'']\<rparr>)) = ''gw''"
    and "find (\<lambda>old. msg_id old = msg_id (said ''X'' (''see @all'' @ newline # ''plain'')))
      (messageCache (session\<lparr>messageCache := [said ''X'' ''old'']\<rparr>)) = Some (said ''X'' ''old'')"
    by (simp_all add: session_def init_def said_def)
  ultimately show ?thesis
    using h1 h2 h3 one_privmsg_per_line [OF h1 h2 h3, of colours]
    by (simp add: colours_def)
qed

subsection \<open>Highlighting\<close>

text \<open>
  Claim C9: every emitted line carries the highlight suffix, which names the
  \<^verbatim>\<open>loginNick\<close> of the IRC connection, if and only if one of \<open>@here\<close>, \<open>@channel\<close>,
  \<open>@everyone\<close>, \<open>@all\<close> occurs in the line as a contiguous piece, compared character by
  character; a line with none of them ends where the line ends.
\<close>

theorem highlight_suffix_iff_term_occurs:
  assumes "map_of (rooms s) (rid m) = Some r" and "u m = Some nick"
    and "\<not> (\<exists>old. find (\<lambda>old. msg_id old = msg_id m) (messageCache s) = Some old \<and>
               msg old = msg m)"
  shows "received (connection (fst (onMessage irc m s))) =
           received (connection s) @
           map (\<lambda>line. SendPacket ''privmsg'' [getIRCChannelName r, nick,
                  (if find (\<lambda>old. msg_id old = msg_id m) (messageCache s) \<noteq> None
                   then lightgrey irc ''[EDIT] '' else []) @
                  line @
                  (if \<exists>needle \<in> {''@here'', ''@channel'', ''@everyone'', ''@all''}.
                        \<exists>ps ss. line = ps @ needle @ ss
                   then red irc ('' (cc: '' @ loginNick (connection s) @ '')'') else [])])
               (split_lines (msg m))"
  using onMessage_emits [OF assms, of irc]
  by (simp add: line_text_def Let_def highlight_of_iff)

text \<open>
  Claim C9 in the sample session: of the two lines, the one with \<open>@channel\<close> gets the
  suffix with the nick \<open>gw\<close>, the one with \<open>@Channel\<close> gets none.
\<close>

theorem highlight_suffix_iff_term_occurs_witness:
  "map_of (rooms session)
     (rid (said ''X'' (''meeting @channel now'' @ newline # ''ask @Channel''))) = Some general \<and>
   u (said ''X'' (''meeting @channel now'' @ newline # ''ask @Channel'')) = Some ''bob'' \<and>
   \<not> (\<exists>old. find (\<lambda>old. msg_id old =
          msg_id (said ''X'' (''meeting @channel now'' @ newline # ''ask @Channel'')))
          (messageCache session) = Some old \<and>
        msg old = msg (said ''X'' (''meeting @channel now'' @ newline # ''ask @Channel''))) \<and>
   received (connection (fst (onMessage colours
      (said ''X'' (''meeting @channel now'' @ newline # ''ask @Channel'')) session))) =
     [SendPacket ''privmsg'' [''#general'', ''bob'',
        ''meeting @channel now'' @ CHR 0x03 # ''04 (cc: gw)'' @ [CHR 0x03]],
      SendPacket ''privmsg'' [''#general'', ''bob'', ''ask @Channel'']]"
proof -
  have h1: "map_of (rooms session)
      (rid (said ''X'' (''meeting @channel now'' @ newline # ''ask @Channel''))) = Some general"
    by (simp add: session_def init_def said_def)
  have h2: "u (said ''X'' (''meeting @channel now'' @ newline # ''ask @Channel'')) = Some ''bob''"
    by (simp add: said_def)
  have h3: "\<not> (\<exists>old. find (\<lambda>old. msg_id old =
        msg_id (said ''X'' (''meeting @channel now'' @ newline # ''ask @Channel'')))
        (messageCache session) = Some old \<and>
        msg old = msg (said ''X'' (''meeting @channel now'' @ newline # ''ask @Channel'')))"
    by (simp add: session_def init_def)
  have "split_lines (msg (said ''X'' (''meeting @channel now'' @ newline # ''ask @Channel''))) =
      [''meeting @channel now'', ''ask @Channel'']"
    by (simp add: said_def split_lines_def newline_def)
  moreover have "(\<exists>needle \<in> {''@here'', ''@channel'', ''@everyone'', ''@all''}.
        \<exists>ps ss. ''meeting @channel now'' = ps @ needle @ ss) = True"
    and "(\<exists>needle \<in> {''@here'', ''@channel'', ''@everyone'', ''@all''}.
        \<exists>ps ss. ''ask @Channel'' = ps @ needle @ ss) = False"
    using highlight_of_iff [of "''meeting @channel now''", symmetric]
      highlight_of_iff [of "''ask @Channel''", symmetric]
    by (simp_all add: highlight_of_def HIGHLIGHT_TERMS_def)
  moreover have "getIRCChannelName general = ''#general''"
    by (simp add: getIRCChannelName_def getRoomPrefix_def general_def)
  moreover have "received (connection session) = []"
    and "loginNick (connection session) = ''gw''"
    and "find (\<lambda>old. msg_id old =
      msg_id (said ''X'' (''meeting @channel now'' @ newline # ''ask @Channel'')))
      (messageCache session) = None"
    by (simp_all add: session_def init_def)
  ultimately show ?thesis
    using h1 h2 h3 highlight_suffix_iff_term_occurs [OF h1 h2 h3, of colours]
    by (simp add: colours_def)
qed

subsection \<open>Edits\<close>

text \<open>
  Claim C3 says that an event for a cached id with another text is marked as an edit and
  that the cache entry found for the id has its text updated.  The marking holds; the
  update does not happen: with \<open>X\<close> cached with text \<open>a\<close>, the event \<open>X\<close> with text \<open>b\<close> is
  pushed behind the old entry, nothing is written to the entry found, and the lookup for
  \<open>X\<close> goes on finding the text \<open>a\<close>.
\<close>

theorem edit_leaves_stale_entry:
  "find (\<lambda>old. msg_id old = msg_id (said ''X'' ''b''))
     (messageCache (session\<lparr>messageCache := [said ''X'' ''a'']\<rparr>)) = Some (said ''X'' ''a'') \<and>
   msg (said ''X'' ''a'') \<noteq> msg (said ''X'' ''b'') \<and>
   received (connection (fst (onMessage colours (said ''X'' ''b'')
     (session\<lparr>messageCache := [said ''X'' ''a'']\<rparr>)))) =
     [SendPacket ''privmsg'' [''#general'', ''bob'', CHR 0x03 # ''15[EDIT] '' @ CHR 0x03 # ''b'']] \<and>
   messageCache (fst (onMessage colours (said ''X'' ''b'')
     (session\<lparr>messageCache := [said ''X'' ''a'']\<rparr>))) = [said ''X'' ''a'', said ''X'' ''b''] \<and>
   find (\<lambda>old. msg_id old = msg_id (said ''X'' ''b''))
     (messageCache (fst (onMessage colours (said ''X'' ''b'')
        (session\<lparr>messageCache := [said ''X'' ''a'']\<rparr>)))) = Some (said ''X'' ''a'') \<and>
   msg (said ''X'' ''a'') = ''a''"
  by (simp add: onMessage_def rooms_at_def session_def init_def said_def general_def colours_def
      getIRCChannelName_def getRoomPrefix_def split_lines_def newline_def line_text_def
      highlight_of_def HIGHLIGHT_TERMS_def push_cache_def MESSAGE_CACHE_SIZE_def)

subsection \<open>Re-delivery\<close>

text \<open>
  Claim C4 says that of two deliveries with the same id and the same text, the second
  produces no output while the entry of the first is cached.  The code compares with the
  first entry of the id, which after an edit is the stale one: \<open>X\<close> arrives with text \<open>a\<close>,
  then with text \<open>b\<close>, then with text \<open>b\<close> again; the entry of the second event is in the
  cache, and the third event is emitted once more, as an edit.
\<close>

theorem redelivered_edit_is_emitted_again:
  "messageCache (run colours [Incoming (said ''X'' ''a''), Incoming (said ''X'' ''b'')] session) =
     [said ''X'' ''a'', said ''X'' ''b''] \<and>
   received (connection
       (run colours [Incoming (said ''X'' ''a''), Incoming (said ''X'' ''b'')] session)) =
     [SendPacket ''privmsg'' [''#general'', ''bob'', ''a''],
      SendPacket ''privmsg'' [''#general'', ''bob'', CHR 0x03 # ''15[EDIT] '' @ CHR 0x03 # ''b'']] \<and>
   received (connection (fst (onMessage colours (said ''X'' ''b'')
       (run colours [Incoming (said ''X'' ''a''), Incoming (said ''X'' ''b'')] session)))) =
     [SendPacket ''privmsg'' [''#general'', ''bob'', ''a''],
      SendPacket ''privmsg'' [''#general'', ''bob'', CHR 0x03 # ''15[EDIT] '' @ CHR 0x03 # ''b''],
      SendPacket ''privmsg'' [''#general'', ''bob'', CHR 0x03 # ''15[EDIT] '' @ CHR 0x03 # ''b'']]"
  by (simp add: run_def onMessage_def rooms_at_def session_def init_def said_def general_def
      colours_def getIRCChannelName_def getRoomPrefix_def split_lines_def newline_def
      line_text_def highlight_of_def HIGHLIGHT_TERMS_def push_cache_def MESSAGE_CACHE_SIZE_def)

text \<open>
  Where the suppression does work: an event with a new id stays the first entry of its id
  until fifty entries have been pushed behind it, by incoming or by sent messages.
\<close>

lemma heads_iff:
  "heads m j cache \<longleftrightarrow>
     (\<exists>pre post. cache = pre @ m # post \<and> (\<forall>e \<in> set pre. msg_id e \<noteq> msg_id m) \<and>
        length post \<le> j)"
proof
  assume "heads m j cache"
  then obtain post where d: "dropWhile (\<lambda>e. msg_id e \<noteq> msg_id m) cache = m # post"
    and l: "length post \<le> j"
    by (auto simp add: heads_def split: list.splits)
  have "cache = takeWhile (\<lambda>e. msg_id e \<noteq> msg_id m) cache @ m # post"
    using takeWhile_dropWhile_id [of "\<lambda>e. msg_id e \<noteq> msg_id m" cache] d by simp
  moreover have "\<forall>e \<in> set (takeWhile (\<lambda>e. msg_id e \<noteq> msg_id m) cache). msg_id e \<noteq> msg_id m"
    using set_takeWhileD by fastforce
  ultimately show "\<exists>pre post. cache = pre @ m # post \<and>
      (\<forall>e \<in> set pre. msg_id e \<noteq> msg_id m) \<and> length post \<le> j"
    using l by blast
next
  assume "\<exists>pre post. cache = pre @ m # post \<and> (\<forall>e \<in> set pre. msg_id e \<noteq> msg_id m) \<and>
      length post \<le> j"
  then obtain pre post where c: "cache = pre @ m # post"
    and p: "\<forall>e \<in> set pre. msg_id e \<noteq> msg_id m" and l: "length post \<le> j"
    by blast
  from p have "dropWhile (\<lambda>e. msg_id e \<noteq> msg_id m) (pre @ m # post) = m # post"
    by (induction pre) auto
  with c l show "heads m j cache"
    by (simp add: heads_def)
qed

lemma heads_find:
  assumes "heads m j cache"
  shows "find (\<lambda>old. msg_id old = msg_id m) cache = Some m"
proof -
  from assms obtain pre post where c: "cache = pre @ m # post"
    and p: "\<forall>e \<in> set pre. msg_id e \<noteq> msg_id m"
    unfolding heads_iff by blast
  from p have "find (\<lambda>old. msg_id old = msg_id m) (pre @ m # post) = Some m"
    by (induction pre) auto
  with c show ?thesis by simp
qed

lemma heads_mono:
  assumes "heads m j cache" and "j \<le> k"
  shows "heads m k cache"
proof -
  from assms(1) obtain pre post where "cache = pre @ m # post"
    and "\<forall>e \<in> set pre. msg_id e \<noteq> msg_id m" and "length post \<le> j"
    unfolding heads_iff by blast
  with assms(2) show ?thesis
    unfolding heads_iff by (intro exI [of _ pre] exI [of _ post]) simp
qed

lemma heads_push_new:
  assumes "find (\<lambda>old. msg_id old = msg_id m) cache = None"
  shows "heads m 0 (push_cache m cache)"
proof -
  from assms have none: "\<forall>e \<in> set cache. msg_id e \<noteq> msg_id m"
    by (auto simp add: find_None_iff)
  show ?thesis
  proof (cases cache)
    case Nil
    then show ?thesis
      by (simp add: heads_def push_cache_def MESSAGE_CACHE_SIZE_def)
  next
    case (Cons c cs)
    then have "push_cache m cache = cache @ [m] \<or> push_cache m cache = cs @ [m]"
      by (simp add: push_cache_def Let_def)
    then show ?thesis
    proof
      assume "push_cache m cache = cache @ [m]"
      with none show ?thesis
        unfolding heads_iff by (intro exI [of _ cache] exI [of _ "[]"]) simp
    next
      assume "push_cache m cache = cs @ [m]"
      with none Cons show ?thesis
        unfolding heads_iff by (intro exI [of _ cs] exI [of _ "[]"]) simp
    qed
  qed
qed

lemma heads_push_later:
  assumes "heads m j cache" and "j < 49"
  shows "heads m (Suc j) (push_cache e cache)"
proof -
  from assms(1) obtain pre post where c: "cache = pre @ m # post"
    and p: "\<forall>x \<in> set pre. msg_id x \<noteq> msg_id m" and l: "length post \<le> j"
    unfolding heads_iff by blast
  show ?thesis
  proof (cases "length (cache @ [e]) > MESSAGE_CACHE_SIZE")
    case False
    then have "push_cache e cache = pre @ m # (post @ [e])"
      using c by (simp add: push_cache_def)
    with p l show ?thesis
      unfolding heads_iff by (intro exI [of _ pre] exI [of _ "post @ [e]"]) simp
  next
    case True
    with c l assms(2) have "pre \<noteq> []"
      by (auto simp add: MESSAGE_CACHE_SIZE_def)
    then obtain x xs where pre: "pre = x # xs"
      by (cases pre) auto
    with True c have "push_cache e cache = xs @ m # (post @ [e])"
      by (simp add: push_cache_def)
    with p l pre show ?thesis
      unfolding heads_iff by (intro exI [of _ xs] exI [of _ "post @ [e]"]) simp
  qed
qed

text \<open>An action leaves the cache alone or pushes one entry, which carries its id.\<close>

lemma sendMessage_cache:
  "messageCache (fst (sendMessage fresh r body s)) =
     push_cache \<lparr>msg_id = fresh, rid = room_id r, msg = body, u = None\<rparr> (messageCache s)"
  by (simp add: sendMessage_def Let_def split: option.splits)

lemma perform_cache_cases:
  "messageCache (perform irc a s) = messageCache s \<or>
   (\<exists>e. msg_id e = action_id a \<and> messageCache (perform irc a s) = push_cache e (messageCache s))"
proof (cases a)
  case (Incoming m)
  with onMessage_cache_cases [of irc m s] show ?thesis by auto
next
  case (Outgoing fresh r body)
  have "msg_id \<lparr>msg_id = fresh, rid = room_id r, msg = body, u = None\<rparr> = action_id a"
    using Outgoing by simp
  moreover have "messageCache (perform irc a s) =
      push_cache \<lparr>msg_id = fresh, rid = room_id r, msg = body, u = None\<rparr> (messageCache s)"
    using Outgoing by (simp add: sendMessage_cache)
  ultimately show ?thesis by blast
qed

lemma perform_rooms: "rooms (perform irc a s) = rooms s"
  by (cases a) (simp_all add: onMessage_rooms sendMessage_def Let_def split: option.splits)

lemma perform_loginNick: "loginNick (connection (perform irc a s)) = loginNick (connection s)"
  by (cases a) (simp_all add: onMessage_loginNick sendMessage_def Let_def split: option.splits)

lemma run_Cons: "run irc (a # acts) s = run irc acts (perform irc a s)"
  by (simp add: run_def)

lemma run_rooms: "rooms (run irc acts s) = rooms s"
  by (induction acts arbitrary: s) (simp_all add: run_def perform_rooms)

lemma run_loginNick: "loginNick (connection (run irc acts s)) = loginNick (connection s)"
  by (induction acts arbitrary: s) (simp_all add: run_def perform_loginNick)

lemma heads_perform:
  assumes "heads m j (messageCache s)" and "j < 49"
  shows "heads m (Suc j) (messageCache (perform irc a s))"
  using perform_cache_cases [of irc a s] heads_push_later [OF assms]
    heads_mono [OF assms(1), of "Suc j"]
  by auto

lemma heads_run:
  assumes "heads m j (messageCache s)" and "j + length acts \<le> 49"
  shows "heads m (j + length acts) (messageCache (run irc acts s))"
  using assms
proof (induction acts arbitrary: s j)
  case Nil
  then show ?case by (simp add: run_def)
next
  case (Cons a acts)
  from Cons.prems have j: "j < 49"
    by simp
  have "heads m (Suc j) (messageCache (perform irc a s))"
    using heads_perform [OF Cons.prems(1) j] .
  from Cons.IH [OF this] Cons.prems(2) show ?case
    by (simp add: run_Cons)
qed

lemma redelivery_of_new_message_is_silent:
  assumes "map_of (rooms s) (rid m) = Some r" and "u m = Some nick"
    and "find (\<lambda>old. msg_id old = msg_id m) (messageCache s) = None"
    and "length between < 50"
    and "msg_id m' = msg_id m" and "msg m' = msg m"
    and "map_of (rooms s) (rid m') = Some r'" and "u m' = Some nick'"
  shows "onMessage irc m' (run irc (Incoming m # between) s) =
           (run irc (Incoming m # between) s, None)"
proof -
  have new: "\<not> (\<exists>old. find (\<lambda>old. msg_id old = msg_id m) (messageCache s) = Some old \<and>
      msg old = msg m)"
    using assms(3) by simp
  have first: "messageCache (fst (onMessage irc m s)) = push_cache m (messageCache s)"
    using onMessage_emits [OF assms(1,2) new, of irc] by simp
  have "heads m 0 (messageCache (fst (onMessage irc m s)))"
    using heads_push_new [OF assms(3)] first by simp
  from heads_run [OF this, of between irc] assms(4)
  have "heads m (length between) (messageCache (run irc (Incoming m # between) s))"
    by (simp add: run_Cons)
  then have found: "find (\<lambda>old. msg_id old = msg_id m')
      (messageCache (run irc (Incoming m # between) s)) = Some m"
    using heads_find assms(5) by simp
  have "map_of (rooms (run irc (Incoming m # between) s)) (rid m') = Some r'"
    using assms(7) by (simp add: run_rooms)
  from onMessage_unchanged [OF this assms(8) found] assms(6) show ?thesis
    by simp
qed

subsection \<open>Eviction\<close>

lemma find_push_cache_None:
  assumes "find P cache = None" and "\<not> P e"
  shows "find P (push_cache e cache) = None"
proof -
  from assms have "\<forall>x \<in> set (cache @ [e]). \<not> P x"
    by (auto simp add: find_None_iff)
  moreover have "set (tl (cache @ [e])) \<subseteq> set (cache @ [e])"
    by (cases "cache @ [e]") auto
  ultimately have "\<forall>x \<in> set (push_cache e cache). \<not> P x"
    by (auto simp add: push_cache_def Let_def)
  then show ?thesis
    by (simp add: find_None_iff)
qed

lemma find_id_None:
  "i \<notin> set (map msg_id cache) \<Longrightarrow> find (\<lambda>old. msg_id old = i) cache = None"
  by (induction cache) auto

lemma length_push_cache_full:
  "length cache = 50 \<Longrightarrow> length (push_cache e cache) = 50"
  by (simp add: push_cache_def MESSAGE_CACHE_SIZE_def)

text \<open>An id that is not cached stays out while no action brings it, and a full cache stays full.\<close>

lemma perform_keeps_absent:
  assumes "find (\<lambda>old. msg_id old = i) (messageCache s) = None" and "action_id a \<noteq> i"
    and "length (messageCache s) = 50"
  shows "find (\<lambda>old. msg_id old = i) (messageCache (perform irc a s)) = None \<and>
         length (messageCache (perform irc a s)) = 50"
proof -
  from perform_cache_cases [of irc a s] show ?thesis
  proof
    assume "messageCache (perform irc a s) = messageCache s"
    with assms show ?thesis by simp
  next
    assume "\<exists>e. msg_id e = action_id a \<and>
      messageCache (perform irc a s) = push_cache e (messageCache s)"
    then obtain e where "msg_id e = action_id a"
      and "messageCache (perform irc a s) = push_cache e (messageCache s)"
      by blast
    with assms show ?thesis
      using find_push_cache_None [of "\<lambda>old. msg_id old = i" "messageCache s" e]
        length_push_cache_full [of "messageCache s" e]
      by simp
  qed
qed

lemma run_keeps_absent:
  assumes "find (\<lambda>old. msg_id old = i) (messageCache s) = None"
    and "i \<notin> set (map action_id acts)"
    and "length (messageCache s) = 50"
  shows "find (\<lambda>old. msg_id old = i) (messageCache (run irc acts s)) = None \<and>
         length (messageCache (run irc acts s)) = 50"
  using assms
proof (induction acts arbitrary: s)
  case Nil
  then show ?case by (simp add: run_def)
next
  case (Cons a acts)
  from Cons.prems(2) have "action_id a \<noteq> i" and rest: "i \<notin> set (map action_id acts)"
    by auto
  from perform_keeps_absent [OF Cons.prems(1) this(1) Cons.prems(3), of irc]
  have "find (\<lambda>old. msg_id old = i) (messageCache (perform irc a s)) = None"
    and "length (messageCache (perform irc a s)) = 50"
    by simp_all
  from Cons.IH [OF this(1) rest this(2)] show ?case
    by (simp add: run_Cons)
qed

text \<open>
  Claim C6 as stated fails for a later event that does not reach the output stage: the
  cache holds fifty entries of distinct ids, the new id \<open>X\<close> evicts the oldest entry
  \<open>m01\<close>, and an event that reuses \<open>m01\<close> for a room the session does not know throws; it
  produces no output and is not inserted.
\<close>

theorem eviction_counterexample:
  "length (messageCache (session\<lparr>messageCache := fifty\<rparr>)) = 50 \<and>
   distinct (map msg_id (messageCache (session\<lparr>messageCache := fifty\<rparr>))) \<and>
   msg_id (said ''X'' ''new'') \<notin>
     set (map msg_id (messageCache (session\<lparr>messageCache := fifty\<rparr>))) \<and>
   msg_id ((said ''m01'' ''again'')\<lparr>rid := ''r-unknown''\<rparr>) =
     msg_id (hd (messageCache (session\<lparr>messageCache := fifty\<rparr>))) \<and>
   messageCache (fst (onMessage colours (said ''X'' ''new'')
     (session\<lparr>messageCache := fifty\<rparr>))) = tl fifty @ [said ''X'' ''new''] \<and>
   onMessage colours ((said ''m01'' ''again'')\<lparr>rid := ''r-unknown''\<rparr>)
     (fst (onMessage colours (said ''X'' ''new'') (session\<lparr>messageCache := fifty\<rparr>))) =
     (fst (onMessage colours (said ''X'' ''new'') (session\<lparr>messageCache := fifty\<rparr>)),
      Some TypeError)"
proof -
  have "rooms_at (session\<lparr>messageCache := fifty\<rparr>) ''r-unknown'' = Undefined"
    by (simp add: rooms_at_def session_def init_def Object_prototype_def
        Object_prototype_methods_def)
  then have "rooms_at (fst (onMessage colours (said ''X'' ''new'')
      (session\<lparr>messageCache := fifty\<rparr>))) ''r-unknown'' = Undefined"
    by (simp only: onMessage_rooms_at)
  then have "onMessage colours ((said ''m01'' ''again'')\<lparr>rid := ''r-unknown''\<rparr>)
      (fst (onMessage colours (said ''X'' ''new'') (session\<lparr>messageCache := fifty\<rparr>))) =
      (fst (onMessage colours (said ''X'' ''new'') (session\<lparr>messageCache := fifty\<rparr>)),
       Some TypeError)"
    by (simp add: onMessage_unknown_room)
  moreover have "messageCache (fst (onMessage colours (said ''X'' ''new'')
      (session\<lparr>messageCache := fifty\<rparr>))) = tl fifty @ [said ''X'' ''new'']"
    by (simp add: onMessage_def rooms_at_def session_def init_def said_def fifty_def
        push_cache_def MESSAGE_CACHE_SIZE_def)
  moreover have "length (messageCache (session\<lparr>messageCache := fifty\<rparr>)) = 50"
    and "distinct (map msg_id (messageCache (session\<lparr>messageCache := fifty\<rparr>)))"
    and "msg_id (said ''X'' ''new'') \<notin>
      set (map msg_id (messageCache (session\<lparr>messageCache := fifty\<rparr>)))"
    and "msg_id ((said ''m01'' ''again'')\<lparr>rid := ''r-unknown''\<rparr>) =
      msg_id (hd (messageCache (session\<lparr>messageCache := fifty\<rparr>)))"
    by (simp_all add: fifty_def said_def)
  ultimately show ?thesis
    by blast
qed

text \<open>
  Claim C6, amended: when the cache holds 50 entries with 50 distinct ids, a message with
  an id that is not in the cache, whose room is registered and which names its author,
  evicts exactly the oldest entry and is appended.  After any number of further incoming
  events and sent messages that do not carry the evicted id, the first event that reuses
  it, whose room is registered and which names its author, is processed as a new
  message: its lines are emitted without the edit marker, and it is appended as a fresh
  entry behind the entries that were there, the oldest of which it evicts.
\<close>

theorem evicted_id_is_new_again:
  assumes "length (messageCache s) = 50" and "distinct (map msg_id (messageCache s))"
    and "map_of (rooms s) (rid m) = Some r" and "u m = Some nick"
    and "msg_id m \<notin> set (map msg_id (messageCache s))"
    and "msg_id m2 = msg_id (hd (messageCache s))"
    and "msg_id m2 \<notin> set (map action_id between)"
    and "map_of (rooms s) (rid m2) = Some r2" and "u m2 = Some nick2"
  shows "messageCache (fst (onMessage irc m s)) = tl (messageCache s) @ [m] \<and>
         received (connection (fst (onMessage irc m2 (run irc between (fst (onMessage irc m s)))))) =
           received (connection (run irc between (fst (onMessage irc m s)))) @
           map (\<lambda>line. SendPacket ''privmsg'' [getIRCChannelName r2, nick2,
                  line @
                  (if \<exists>needle \<in> {''@here'', ''@channel'', ''@everyone'', ''@all''}.
                        \<exists>ps ss. line = ps @ needle @ ss
                   then red irc ('' (cc: '' @ loginNick (connection s) @ '')'') else [])])
               (split_lines (msg m2)) \<and>
         messageCache (fst (onMessage irc m2 (run irc between (fst (onMessage irc m s))))) =
           tl (messageCache (run irc between (fst (onMessage irc m s)))) @ [m2]"
proof -
  let ?s1 = "fst (onMessage irc m s)"
  let ?s2 = "run irc between ?s1"
  obtain c cs where cache: "messageCache s = c # cs" and len: "length cs = 49"
    using assms(1) by (cases "messageCache s") auto
  have absent_m: "find (\<lambda>old. msg_id old = msg_id m) (messageCache s) = None"
    using assms(5) by (rule find_id_None)
  then have new: "\<not> (\<exists>old. find (\<lambda>old. msg_id old = msg_id m) (messageCache s) = Some old \<and>
      msg old = msg m)"
    by simp
  have pushed: "push_cache m (messageCache s) = cs @ [m]"
    using cache len by (simp add: push_cache_def MESSAGE_CACHE_SIZE_def)
  have cache1: "messageCache ?s1 = cs @ [m]"
    using onMessage_emits [OF assms(3,4) new, of irc] pushed by simp
  have "msg_id c \<notin> set (map msg_id cs)"
    using assms(2) cache by simp
  moreover have "msg_id m \<noteq> msg_id c"
    using assms(5) cache by auto
  moreover have "msg_id m2 = msg_id c"
    using assms(6) cache by simp
  ultimately have "msg_id m2 \<notin> set (map msg_id (cs @ [m]))"
    by simp
  then have absent1: "find (\<lambda>old. msg_id old = msg_id m2) (messageCache ?s1) = None"
    unfolding cache1 by (rule find_id_None)
  have len1: "length (messageCache ?s1) = 50"
    using cache1 len by simp
  from run_keeps_absent [OF absent1 assms(7) len1, of irc]
  have absent2: "find (\<lambda>old. msg_id old = msg_id m2) (messageCache ?s2) = None"
    and len2: "length (messageCache ?s2) = 50"
    by simp_all
  have rooms2: "map_of (rooms ?s2) (rid m2) = Some r2"
    using assms(8) by (simp add: run_rooms onMessage_rooms)
  have nick2: "loginNick (connection ?s2) = loginNick (connection s)"
    by (simp add: run_loginNick onMessage_loginNick)
  have new2: "\<not> (\<exists>old. find (\<lambda>old. msg_id old = msg_id m2) (messageCache ?s2) = Some old \<and>
      msg old = msg m2)"
    using absent2 by simp
  have "messageCache ?s2 \<noteq> []"
    using len2 by auto
  then have pushed2: "push_cache m2 (messageCache ?s2) = tl (messageCache ?s2) @ [m2]"
    using len2 by (simp add: push_cache_def MESSAGE_CACHE_SIZE_def)
  have "messageCache ?s1 = tl (messageCache s) @ [m]"
    using cache1 cache by simp
  then show ?thesis
    using onMessage_emits [OF rooms2 assms(9) new2, of irc] absent2 nick2 pushed2
    by (simp add: line_text_def highlight_of_iff)
qed

text \<open>
  Claim C6, amended, at the full cache of fifty distinct ids: \<open>X\<close> arrives and evicts
  \<open>m01\<close>; another message arrives and one is sent; then \<open>m01\<close> arrives again and is
  emitted unmarked.
\<close>

theorem evicted_id_is_new_again_witness:
  "length (messageCache (session\<lparr>messageCache := fifty\<rparr>)) = 50 \<and>
   distinct (map msg_id (messageCache (session\<lparr>messageCache := fifty\<rparr>))) \<and>
   msg_id (said ''X'' ''new'') \<notin>
     set (map msg_id (messageCache (session\<lparr>messageCache := fifty\<rparr>))) \<and>
   msg_id (said ''m01'' ''again'') = msg_id (hd (messageCache (session\<lparr>messageCache := fifty\<rparr>))) \<and>
   msg_id (said ''m01'' ''again'') \<notin>
     set (map action_id [Incoming (said ''Y'' ''other''), Outgoing ''Z'' general ''sent'']) \<and>
   messageCache (fst (onMessage colours (said ''X'' ''new'')
     (session\<lparr>messageCache := fifty\<rparr>))) = tl fifty @ [said ''X'' ''new''] \<and>
   received (connection (fst (onMessage colours (said ''m01'' ''again'')
     (run colours [Incoming (said ''Y'' ''other''), Outgoing ''Z'' general ''sent'']
        (fst (onMessage colours (said ''X'' ''new'') (session\<lparr>messageCache := fifty\<rparr>))))))) =
     received (connection
       (run colours [Incoming (said ''Y'' ''other''), Outgoing ''Z'' general ''sent'']
          (fst (onMessage colours (said ''X'' ''new'') (session\<lparr>messageCache := fifty\<rparr>))))) @
     [SendPacket ''privmsg'' [''#general'', ''bob'', ''again'']] \<and>
   messageCache (fst (onMessage colours (said ''m01'' ''again'')
     (run colours [Incoming (said ''Y'' ''other''), Outgoing ''Z'' general ''sent'']
        (fst (onMessage colours (said ''X'' ''new'') (session\<lparr>messageCache := fifty\<rparr>)))))) =
     tl (messageCache
       (run colours [Incoming (said ''Y'' ''other''), Outgoing ''Z'' general ''sent'']
          (fst (onMessage colours (said ''X'' ''new'') (session\<lparr>messageCache := fifty\<rparr>))))) @
     [said ''m01'' ''again'']"
proof -
  have h1: "length (messageCache (session\<lparr>messageCache := fifty\<rparr>)) = 50"
    by (simp add: fifty_def)
  have h2: "distinct (map msg_id (messageCache (session\<lparr>messageCache := fifty\<rparr>)))"
    by (simp add: fifty_def said_def)
  have h3: "map_of (rooms (session\<lparr>messageCache := fifty\<rparr>)) (rid (said ''X'' ''new'')) =
      Some general"
    and h8: "map_of (rooms (session\<lparr>messageCache := fifty\<rparr>)) (rid (said ''m01'' ''again'')) =
      Some general"
    by (simp_all add: session_def init_def said_def)
  have h4: "u (said ''X'' ''new'') = Some ''bob''" and h9: "u (said ''m01'' ''again'') = Some ''bob''"
    by (simp_all add: said_def)
  have h5: "msg_id (said ''X'' ''new'') \<notin>
      set (map msg_id (messageCache (session\<lparr>messageCache := fifty\<rparr>)))"
    by (simp add: fifty_def said_def)
  have h6: "msg_id (said ''m01'' ''again'') =
      msg_id (hd (messageCache (session\<lparr>messageCache := fifty\<rparr>)))"
    by (simp add: fifty_def said_def)
  have h7: "msg_id (said ''m01'' ''again'') \<notin>
      set (map action_id [Incoming (said ''Y'' ''other''), Outgoing ''Z'' general ''sent''])"
    by (simp add: said_def)
  have "split_lines (msg (said ''m01'' ''again'')) = [''again'']"
    by (simp add: said_def split_lines_def newline_def)
  moreover have "(\<exists>needle \<in> {''@here'', ''@channel'', ''@everyone'', ''@all''}.
        \<exists>ps ss. ''again'' = ps @ needle @ ss) = False"
    using highlight_of_iff [of "''again''", symmetric]
    by (simp add: highlight_of_def HIGHLIGHT_TERMS_def)
  moreover have "getIRCChannelName general = ''#general''"
    by (simp add: getIRCChannelName_def getRoomPrefix_def general_def)
  moreover have "tl (messageCache (session\<lparr>messageCache := fifty\<rparr>)) = tl fifty"
    by simp
  ultimately show ?thesis
    using h1 h2 h5 h6 h7 evicted_id_is_new_again [OF h1 h2 h3 h4 h5 h6 h7 h8 h9, of colours]
    by simp
qed

subsection \<open>A message for an unknown room\<close>










subsection \<open>Connecting twice\<close>

text \<open>No step of the bootstrap unsets the client field.\<close>

lemma invoke_set: "(client (fst (invoke op s)) = None) = (client s = None)"
  by (simp add: invoke_def split: option.splits)

lemma updateMe_set: "client (fst (updateMe a s)) = client s"
  by (simp add: updateMe_def split: option.splits)

lemma trySubscribe_set: "(client (trySubscribe method params s) = None) = (client s = None)"
  by (simp add: trySubscribe_def invoke_def split: option.splits)

lemma subscribeDefault_set: "(client (fst (subscribeDefault s)) = None) = (client s = None)"
  by (simp add: subscribeDefault_def trySubscribe_set Let_def split: option.splits)

lemma observeDefault_set: "(client (fst (observeDefault s)) = None) = (client s = None)"
  by (simp add: observeDefault_def observe_def invoke_def split: option.splits if_splits)

lemma store_room_client: "client (store_room r s) = client s"
  by (simp add: store_room_def)

lemma store_rooms_client: "client (foldl (\<lambda>s' r. store_room r s') s rs) = client s"
  by (induction rs arbitrary: s) (simp_all add: store_room_client)

lemma updateRooms_set: "(client (fst (updateRooms a s)) = None) = (client s = None)"
  by (simp add: updateRooms_def callDated_def invoke_def store_rooms_client Let_def
      split: option.splits sum.splits)

lemma joinRoom_begin_set: "(client (joinRoom_begin r s) = None) = (client s = None)"
  by (simp add: joinRoom_begin_def invoke_set Let_def)

lemma joinDefaultRooms_loop_set:
  "(client (foldl (\<lambda>s' kv. if t (snd kv) = ''d'' then s' else joinRoom_begin (snd kv) s') s rs)
      = None) = (client s = None)"
  by (induction rs arbitrary: s) (simp_all add: joinRoom_begin_set)

lemma joinDefaultRooms_set: "(client (joinDefaultRooms s) = None) = (client s = None)"
  by (simp add: joinDefaultRooms_def joinDefaultRooms_loop_set)

lemma connect_sets_client: "client (fst (connect a s)) \<noteq> None"
proof (cases "client s = None")
  case False
  then show ?thesis by (simp add: connect_def)
next
  case True
  let ?s1 = "s\<lparr>client := Some [On ''message'', Connect]\<rparr>"
  let ?s2 = "?s1\<lparr>client := Some [On ''message'', Connect, Login (username s) (password s)]\<rparr>"
  show ?thesis
  proof (cases "connect_answer a")
    case (Some e)
    with True show ?thesis by (simp add: connect_def Let_def)
  next
    case None
    note no_refusal = this
    show ?thesis
    proof (cases "login_answer a")
      case (Inl e)
      with True no_refusal show ?thesis by (simp add: connect_def Let_def)
    next
      case (Inr info)
      let ?s3 = "?s2\<lparr>userInfo := Some info, token := Some (info_token info)\<rparr>"
      obtain s4 x4 where me: "updateMe a ?s3 = (s4, x4)"
        by (cases "updateMe a ?s3")
      have c4: "client s4 \<noteq> None"
        using updateMe_set [of a ?s3] me by simp
      obtain s5 x5 where sub: "subscribeDefault s4 = (s5, x5)"
        by (cases "subscribeDefault s4")
      have c5: "client s5 \<noteq> None"
        using subscribeDefault_set [of s4] sub c4 by simp
      obtain s6 x6 where obs: "observeDefault s5 = (s6, x6)"
        by (cases "observeDefault s5")
      have c6: "client s6 \<noteq> None"
        using observeDefault_set [of s5] obs c5 by simp
      obtain s7 x7 where upd: "updateRooms a s6 = (s7, x7)"
        by (cases "updateRooms a s6")
      have c7: "client s7 \<noteq> None"
        using updateRooms_set [of a s6] upd c6 by simp
      then have c8: "client (joinDefaultRooms s7) \<noteq> None"
        by (simp add: joinDefaultRooms_set)
      have "fst (connect a s) = s4 \<or> fst (connect a s) = s5 \<or> fst (connect a s) = s6 \<or>
          fst (connect a s) = s7 \<or> fst (connect a s) = joinDefaultRooms s7"
        using True no_refusal Inr me sub obs upd
        by (cases x4; cases x5; cases x6; cases x7; simp add: connect_def Let_def)
      with c4 c5 c6 c7 c8 show ?thesis by auto
    qed
  qed
qed

text \<open>
  Claim C10: once \<^verbatim>\<open>connect\<close> has run on an instance, with whatever outcome, the client
  field is set; \<^verbatim>\<open>disconnect\<close> closes the client and leaves the field set; and every
  later \<^verbatim>\<open>connect\<close>, with whatever the transport would answer, returns at once with the
  state exactly as \<^verbatim>\<open>disconnect\<close> left it: nothing is invoked on the transport and no
  field changes.
\<close>

theorem connect_after_disconnect_is_noop:
  "client (fst (connect a s)) \<noteq> None \<and>
   client (disconnect (fst (connect a s))) \<noteq> None \<and>
   connect a' (disconnect (fst (connect a s))) = (disconnect (fst (connect a s)), None)"
proof -
  have "client (fst (connect a s)) \<noteq> None"
    by (rule connect_sets_client)
  moreover from this have "client (disconnect (fst (connect a s))) \<noteq> None"
    by (simp add: disconnect_def invoke_set)
  ultimately show ?thesis
    by (simp add: connect_def)
qed

text \<open>
  Claim C10 at a fresh instance: after a successful bootstrap and a disconnect, the
  operations invoked on the client end with \<^verbatim>\<open>close\<close>, and a second \<^verbatim>\<open>connect\<close> adds none.
\<close>

theorem connect_after_disconnect_is_noop_witness:
  "client (disconnect (fst (connect granted
      (init \<lparr>loginNick = ''gw'', received = []\<rparr> ''bot'' ''secret'')))) =
     Some [On ''message'', Connect, Login ''bot'' ''secret'',
       Subscribe ''stream-notify-user'' [Str ''u1/message'', Bool False],
       Subscribe ''stream-notify-user'' [Str ''u1/rooms-changed'', Bool False],
       Subscribe ''stream-notify-user'' [Str ''u1/subscriptions-changed'', Bool False],
       Subscribe ''stream-notify-all'' [Str ''u1/public-settings-changed'', Bool False],
       Subscribe ''activeUsers'' [], Subscribe ''userData'' [],
       Observe ''users'', Call ''rooms/get'' [Arr [Date 0]],
       Call ''getUsersOfRoom'' [Str ''GENERAL'', Bool True],
       Call ''getUsersOfRoom'' [Str ''r-staff'', Bool True],
       Close] \<and>
   connect granted (disconnect (fst (connect granted
      (init \<lparr>loginNick = ''gw'', received = []\<rparr> ''bot'' ''secret'')))) =
     (disconnect (fst (connect granted
        (init \<lparr>loginNick = ''gw'', received = []\<rparr> ''bot'' ''secret''))), None)"
proof -
  have "client (disconnect (fst (connect granted
      (init \<lparr>loginNick = ''gw'', received = []\<rparr> ''bot'' ''secret'')))) =
     Some [On ''message'', Connect, Login ''bot'' ''secret'',
       Subscribe ''stream-notify-user'' [Str ''u1/message'', Bool False],
       Subscribe ''stream-notify-user'' [Str ''u1/rooms-changed'', Bool False],
       Subscribe ''stream-notify-user'' [Str ''u1/subscriptions-changed'', Bool False],
       Subscribe ''stream-notify-all'' [Str ''u1/public-settings-changed'', Bool False],
       Subscribe ''activeUsers'' [], Subscribe ''userData'' [],
       Observe ''users'', Call ''rooms/get'' [Arr [Date 0]],
       Call ''getUsersOfRoom'' [Str ''GENERAL'', Bool True],
       Call ''getUsersOfRoom'' [Str ''r-staff'', Bool True],
       Close]"
    by code_simp
  with connect_after_disconnect_is_noop
    [of granted "init \<lparr>loginNick = ''gw'', received = []\<rparr> ''bot'' ''secret''" granted]
  show ?thesis
    by simp
qed

end
